theory Spec2Isabelle
  imports Main "HOL-Library.AList" "HOL-Library.Sublist" "HOL-Library.Word"
begin

section \<open>Data model of caddy/restart.go\<close>

text \<open>
  Go's \<open>uintptr\<close> carries file descriptors and positions in the descriptor table.
  The only arithmetic on it is \<open>uintptr(4 + i)\<close> for a slice index \<open>i\<close>; a Go slice
  has fewer than \<open>2^63\<close> elements, so this sum never wraps in a 64-bit \<open>uintptr\<close>
  and the values are modelled as natural numbers.
\<close>

type_synonym uintptr = nat
type_synonym byte = "8 word"

text \<open>
  A \<open>*server.Server\<close> as far as \<open>Restart\<close> looks at it: the field \<open>Addr\<close> and the
  result of the method \<open>ListenerFd()\<close>. The type itself is declared outside
  \<open>restart.go\<close>; the flag \<open>listening\<close> stands for the state of its listener, which
  \<open>Restart\<close> never touches itself and only \<open>Stop\<close> and \<open>Start\<close> can change.
\<close>

record server =
  Addr :: string
  ListenerFd :: uintptr
  listening :: bool

text \<open>\<open>CaddyfileInput\<close> with its two methods.\<close>

record CaddyfileInput =
  Filepath :: string
  Contents :: "byte list"

definition Body :: "CaddyfileInput \<Rightarrow> byte list" where
  "Body c = Contents c"

definition Path :: "CaddyfileInput \<Rightarrow> string" where
  "Path c = Filepath c"

text \<open>A value of the interface type \<open>Input\<close>; \<open>None\<close> is the nil interface.\<close>

type_synonym Input = "CaddyfileInput option"

record caddyfileGob =
  ListenerFds :: "string \<rightharpoonup> uintptr"
  Caddyfile :: "byte list"

text \<open>
  Go errors: the package-level \<open>incompleteRestartErr\<close>, and any other error value
  handed up from the operating system, the encoder, \<open>Stop\<close> or \<open>Start\<close>.
\<close>

datatype error = incompleteRestartErr | OtherError string

text \<open>How a call of \<open>Restart\<close> ends: it returns an \<open>error\<close> (nil is \<open>None\<close>), or it
  panics on calling \<open>Body()\<close> on a nil interface.\<close>

datatype ret = Returned "error option" | Panicked

datatype mutex = caddyfileMu | serversMu

text \<open>The externally visible steps of a call, in the order they happen.\<close>

datatype event =
    Lock mutex
  | Unlock mutex
  | ReadCaddyfile
  | StopCalled
  | StartCalled Input
  | SetenvCalled string string
  | PipeCalled
  | ForkExecCalled string "string list" "(string \<times> string) list" "uintptr list"
  | EncodeCalled uintptr caddyfileGob
  | CloseCalled uintptr
  | ReadAllCalled uintptr
  | LogPrintln string

text \<open>The process state that \<open>Restart\<close> reads and writes; \<open>trace\<close> logs its steps.\<close>

record world =
  GOOS :: string
  Args :: "string list"
  Environ :: "(string \<times> string) list"
  Stdout :: uintptr
  Stderr :: uintptr
  caddyfile :: Input
  servers :: "server list"
  open_fds :: "uintptr set"
  trace :: "event list"

text \<open>
  What the surroundings answer during one call: the results of the two \<open>os.Pipe\<close>
  calls, of \<open>syscall.ForkExec\<close>, of the gob encoder writing to the pipe, of
  \<open>ioutil.ReadAll\<close> on the signal pipe (which returns the bytes read so far together
  with its error), and the functions \<open>Stop\<close> and \<open>Start\<close> of the package, which are
  defined outside this file and act on the server registry.
\<close>

record externals =
  Pipe1 :: "error + (uintptr \<times> uintptr)"
  Pipe2 :: "error + (uintptr \<times> uintptr)"
  ForkExec :: "error option"
  Encode :: "error option"
  ReadAll :: "byte list \<times> error option"
  Stop :: "server list \<Rightarrow> error option \<times> server list"
  Start :: "Input \<Rightarrow> server list \<Rightarrow> error option \<times> server list"

section \<open>Operations\<close>

definition emit :: "event \<Rightarrow> world \<Rightarrow> world" where
  "emit e w = w\<lparr>trace := trace w @ [e]\<rparr>"

definition call_Stop :: "externals \<Rightarrow> world \<Rightarrow> error option \<times> world" where
  "call_Stop X w =
     (case Stop X (servers w) of
        (err, ss) \<Rightarrow> (err, (emit StopCalled w)\<lparr>servers := ss\<rparr>))"

definition call_Start :: "externals \<Rightarrow> Input \<Rightarrow> world \<Rightarrow> error option \<times> world" where
  "call_Start X inp w =
     (case Start X inp (servers w) of
        (err, ss) \<Rightarrow> (err, (emit (StartCalled inp) w)\<lparr>servers := ss\<rparr>))"

text \<open>\<open>os.Setenv\<close>: the key and value used here are valid, so it cannot fail.\<close>

definition Setenv :: "string \<Rightarrow> string \<Rightarrow> world \<Rightarrow> world" where
  "Setenv k v w = emit (SetenvCalled k v) (w\<lparr>Environ := AList.update k v (Environ w)\<rparr>)"

text \<open>\<open>os.Getenv\<close>: the empty string for a variable that is not set.\<close>

definition Getenv :: "string \<Rightarrow> world \<Rightarrow> string" where
  "Getenv k w = (case map_of (Environ w) k of None \<Rightarrow> [] | Some v \<Rightarrow> v)"

text \<open>\<open>os.Pipe\<close>: on success both ends are open in this process.\<close>

definition os_Pipe ::
  "error + (uintptr \<times> uintptr) \<Rightarrow> world \<Rightarrow> (error + (uintptr \<times> uintptr)) \<times> world" where
  "os_Pipe answer w =
     (case answer of
        Inl err \<Rightarrow> (Inl err, emit PipeCalled w)
      | Inr (r, wr) \<Rightarrow> (Inr (r, wr), (emit PipeCalled w)\<lparr>open_fds := open_fds w \<union> {r, wr}\<rparr>))"

definition Close :: "uintptr \<Rightarrow> world \<Rightarrow> world" where
  "Close f w = emit (CloseCalled f) (w\<lparr>open_fds := open_fds w - {f}\<rparr>)"

text \<open>
  The loop \<open>for i, s := range servers\<close>: \<open>i\<close> is the index of the next server, the
  accumulators are \<open>fds\<close> and \<open>cdyfileGob.ListenerFds\<close>.
\<close>

fun listener_loop ::
  "nat \<Rightarrow> server list \<Rightarrow> uintptr list \<times> (string \<rightharpoonup> uintptr)
     \<Rightarrow> uintptr list \<times> (string \<rightharpoonup> uintptr)" where
  "listener_loop i [] (fds, m) = (fds, m)"
| "listener_loop i (s # ss) (fds, m) =
     listener_loop (i + 1) ss (fds @ [ListenerFd s], m(Addr s \<mapsto> 4 + i))"

text \<open>
  \<open>Restart\<close>, statement by statement. The nil check with its lock (source lines
  28--32); the Windows branch (34--44); the repair of an empty \<open>os.Args\<close> (46--48);
  \<open>os.Setenv\<close> (51); the payload, whose \<open>Body()\<close> call panics on a nil interface
  (54--57); the two pipes (60--70); the descriptor list and the loop under
  \<open>serversMu\<close> (75--83); \<open>ForkExec\<close> (86--93); the encoder (96--99); the two
  \<open>Close\<close> calls and \<open>ReadAll\<close> (100--108); \<open>return Stop()\<close> (111). Every
  early \<open>return err\<close> of the source is a branch that ends the call here.
\<close>

definition Restart :: "externals \<Rightarrow> Input \<Rightarrow> world \<Rightarrow> ret \<times> world" where
  "Restart X newCaddyfile0 w0 =
    (let (newCaddyfile, w1) =
           (if newCaddyfile0 = None
            then (caddyfile w0,
                  emit (Unlock caddyfileMu) (emit ReadCaddyfile (emit (Lock caddyfileMu) w0)))
            else (newCaddyfile0, w0))
     in
     if GOOS w1 = ''windows'' then
       (case call_Stop X w1 of
          (Some err, w2) \<Rightarrow> (Returned (Some err), w2)
        | (None, w2) \<Rightarrow>
            (case call_Start X newCaddyfile w2 of
               (Some err, w3) \<Rightarrow> (Returned (Some err), w3)
             | (None, w3) \<Rightarrow> (Returned None, w3)))
     else
       let w2 = (if length (Args w1) = 0 then w1\<lparr>Args := ['''']\<rparr> else w1);
           w3 = Setenv ''CADDY_RESTART'' ''true'' w2
       in
       (case newCaddyfile of
          None \<Rightarrow> (Panicked, w3)
        | Some c \<Rightarrow>
           let cdyfileGob = \<lparr>ListenerFds = Map.empty, Caddyfile = Body c\<rparr> in
           (case os_Pipe (Pipe1 X) w3 of
              (Inl err, w4) \<Rightarrow> (Returned (Some err), w4)
            | (Inr (rpipe, wpipe), w4) \<Rightarrow>
           (case os_Pipe (Pipe2 X) w4 of
              (Inl err, w5) \<Rightarrow> (Returned (Some err), w5)
            | (Inr (sigrpipe, sigwpipe), w5) \<Rightarrow>
               let fds = [rpipe, Stdout w5, Stderr w5, sigwpipe];
                   w6 = emit (Lock serversMu) w5;
                   (fds, lfds) = listener_loop 0 (servers w6) (fds, ListenerFds cdyfileGob);
                   cdyfileGob = cdyfileGob\<lparr>ListenerFds := lfds\<rparr>;
                   w7 = emit (Unlock serversMu) w6;
                   w8 = emit (ForkExecCalled (Args w7 ! 0) (Args w7) (Environ w7) fds) w7
               in
               (case ForkExec X of
                  Some err \<Rightarrow> (Returned (Some err), w8)
                | None \<Rightarrow>
                   let w9 = emit (EncodeCalled wpipe cdyfileGob) w8 in
                   (case Encode X of
                      Some err \<Rightarrow> (Returned (Some err), w9)
                    | None \<Rightarrow>
                       let w10 = Close wpipe w9;
                           w11 = Close sigwpipe w10;
                           w12 = emit (ReadAllCalled sigrpipe) w11;
                           (answer, err) = ReadAll X
                       in
                       if err \<noteq> None \<or> length answer = 0
                       then (Returned (Some incompleteRestartErr),
                             emit (LogPrintln
                               ''restart: child failed to answer; changes not applied'') w12)
                       else (case call_Stop X w12 of
                               (err, w13) \<Rightarrow> (Returned err, w13))))))))"

text \<open>\<open>isRestart\<close> reads the environment variable.\<close>

definition isRestart :: "world \<Rightarrow> bool" where
  "isRestart w = (Getenv ''CADDY_RESTART'' w = ''true'')"

text \<open>The steps that a call adds to the trace.\<close>

definition steps :: "externals \<Rightarrow> Input \<Rightarrow> world \<Rightarrow> event list" where
  "steps X inp w = drop (length (trace w)) (trace (snd (Restart X inp w)))"

section \<open>Vocabulary for the properties\<close>

text \<open>The value of \<open>newCaddyfile\<close> after the nil check at the top of \<open>Restart\<close>.\<close>

definition chosen_input :: "Input \<Rightarrow> world \<Rightarrow> Input" where
  "chosen_input inp w = (if inp = None then caddyfile w else inp)"

text \<open>The steps of that nil check: none for a non-nil argument.\<close>

definition prologue :: "Input \<Rightarrow> event list" where
  "prologue inp =
     (if inp = None then [Lock caddyfileMu, ReadCaddyfile, Unlock caddyfileMu] else [])"

text \<open>\<open>os.Args\<close> and the environment as the graceful path leaves them.\<close>

definition argv :: "world \<Rightarrow> string list" where
  "argv w = (if length (Args w) = 0 then [''''] else Args w)"

definition flagged :: "world \<Rightarrow> (string \<times> string) list" where
  "flagged w = AList.update ''CADDY_RESTART'' ''true'' (Environ w)"

text \<open>The descriptor list and the address map that the loop builds from the registry.\<close>

definition table ::
  "uintptr \<Rightarrow> uintptr \<Rightarrow> world \<Rightarrow> uintptr list \<times> (string \<rightharpoonup> uintptr)" where
  "table rp sw w = listener_loop 0 (servers w) ([rp, Stdout w, Stderr w, sw], Map.empty)"

definition payload :: "CaddyfileInput \<Rightarrow> uintptr \<Rightarrow> uintptr \<Rightarrow> world \<Rightarrow> caddyfileGob" where
  "payload c rp sw w = \<lparr>ListenerFds = snd (table rp sw w), Caddyfile = Body c\<rparr>"

text \<open>The steps of a graceful restart up to and including the call of \<open>ForkExec\<close>.\<close>

definition launch_steps :: "Input \<Rightarrow> uintptr \<Rightarrow> uintptr \<Rightarrow> world \<Rightarrow> event list" where
  "launch_steps inp rp sw w =
     prologue inp @
     [SetenvCalled ''CADDY_RESTART'' ''true'', PipeCalled, PipeCalled,
      Lock serversMu, Unlock serversMu,
      ForkExecCalled (argv w ! 0) (argv w) (flagged w) (fst (table rp sw w))]"

text \<open>What a trace shows of the hand-over: the descriptor lists given to \<open>ForkExec\<close>
  and the payloads given to the encoder.\<close>

fun files_of :: "event \<Rightarrow> uintptr list list" where
  "files_of (ForkExecCalled a av en fds) = [fds]"
| "files_of _ = []"

definition child_files :: "event list \<Rightarrow> uintptr list list" where
  "child_files evs = concat (map files_of evs)"

fun payload_of :: "event \<Rightarrow> caddyfileGob list" where
  "payload_of (EncodeCalled f p) = [p]"
| "payload_of _ = []"

definition sent_payloads :: "event list \<Rightarrow> caddyfileGob list" where
  "sent_payloads evs = concat (map payload_of evs)"

text \<open>The four protocol steps whose order matters.\<close>

datatype phase = Launch | SendPayload | AwaitSignal | StopOld

fun phase_of :: "event \<Rightarrow> phase list" where
  "phase_of (ForkExecCalled a av en fds) = [Launch]"
| "phase_of (EncodeCalled f p) = [SendPayload]"
| "phase_of (ReadAllCalled f) = [AwaitSignal]"
| "phase_of StopCalled = [StopOld]"
| "phase_of _ = []"

definition phases :: "event list \<Rightarrow> phase list" where
  "phases evs = concat (map phase_of evs)"

text \<open>Invariant of the loop on the address map after \<open>n\<close> rounds: every offset lies in
  \<open>4 .. 3 + n\<close> and no two addresses share one.\<close>

definition offsets_ok :: "nat \<Rightarrow> (string \<rightharpoonup> uintptr) \<Rightarrow> bool" where
  "offsets_ok n m \<longleftrightarrow>
     (\<forall>a v. m a = Some v \<longrightarrow> 4 \<le> v \<and> v < 4 + n) \<and>
     (\<forall>a b v. m a = Some v \<and> m b = Some v \<longrightarrow> a = b)"

text \<open>No server of a registry is listening.\<close>

definition none_listening :: "server list \<Rightarrow> bool" where
  "none_listening ss = list_all (\<lambda>s. \<not> listening s) ss"

section \<open>Sample states\<close>

definition sample_input :: CaddyfileInput where
  "sample_input = \<lparr>Filepath = ''Caddyfile'', Contents = [58, 56, 48]\<rparr>"

definition sample_servers :: "server list" where
  "sample_servers =
     [\<lparr>Addr = '':8080'', ListenerFd = 7, listening = True\<rparr>,
      \<lparr>Addr = '':8443'', ListenerFd = 8, listening = True\<rparr>]"

definition sample_world :: world where
  "sample_world =
     \<lparr>GOOS = ''linux'', Args = [''caddy''], Environ = [(''HOME'', ''/root'')],
      Stdout = 1, Stderr = 2, caddyfile = Some sample_input,
      servers = sample_servers, open_fds = {0, 1, 2, 7, 8}, trace = []\<rparr>"

definition windows_world :: world where
  "windows_world = sample_world\<lparr>GOOS := ''windows''\<rparr>"

text \<open>Two registered servers with the same address.\<close>

definition twin_world :: world where
  "twin_world = sample_world\<lparr>servers :=
     [\<lparr>Addr = '':80'', ListenerFd = 7, listening = True\<rparr>,
      \<lparr>Addr = '':80'', ListenerFd = 8, listening = True\<rparr>]\<rparr>"

text \<open>Surroundings in which every step succeeds and the child answers \<open>OK\<close>.\<close>

definition sample_externals :: externals where
  "sample_externals =
     \<lparr>Pipe1 = Inr (3, 4), Pipe2 = Inr (5, 6), ForkExec = None, Encode = None,
      ReadAll = ([79, 75], None),
      Stop = (\<lambda>ss. (None, map (\<lambda>s. s\<lparr>listening := False\<rparr>) ss)),
      Start = (\<lambda>inp ss. (None, map (\<lambda>s. s\<lparr>listening := True\<rparr>) ss))\<rparr>"

definition fork_fails :: externals where
  "fork_fails = sample_externals\<lparr>ForkExec := Some (OtherError ''fork'')\<rparr>"

definition encode_fails :: externals where
  "encode_fails = sample_externals\<lparr>Encode := Some (OtherError ''broken pipe'')\<rparr>"

definition child_silent :: externals where
  "child_silent = sample_externals\<lparr>ReadAll := ([], None)\<rparr>"

definition read_breaks :: externals where
  "read_breaks = sample_externals\<lparr>ReadAll := ([79, 75], Some (OtherError ''read''))\<rparr>"

text \<open>A \<open>Start\<close> that fails without touching the registry, and one that brings up
  the first server before it fails on the next.\<close>

definition start_fails :: externals where
  "start_fails = sample_externals\<lparr>Start := (\<lambda>inp ss. (Some (OtherError ''bind''), ss))\<rparr>"

definition partial_start :: externals where
  "partial_start = sample_externals\<lparr>Start := (\<lambda>inp ss.
     (Some (OtherError ''bind''),
      case ss of [] \<Rightarrow> [] | s # rest \<Rightarrow> s\<lparr>listening := True\<rparr> # rest))\<rparr>"

section \<open>The loop over the registry\<close>

lemma loop_fds: "fst (listener_loop i ss (fds, m)) = fds @ map ListenerFd ss"
  by (induction ss arbitrary: i fds m) simp_all

lemma loop_other:
  "a \<notin> Addr ` set ss \<Longrightarrow> snd (listener_loop i ss (fds, m)) a = m a"
  by (induction ss arbitrary: i fds m) simp_all

lemma loop_last:
  "k < length ss \<Longrightarrow> \<forall>j. k < j \<and> j < length ss \<longrightarrow> Addr (ss ! j) \<noteq> Addr (ss ! k)
     \<Longrightarrow> snd (listener_loop i ss (fds, m)) (Addr (ss ! k)) = Some (4 + i + k)"
proof (induction ss arbitrary: i fds m k)
  case Nil
  then show ?case by simp
next
  case (Cons s ss)
  show ?case
  proof (cases k)
    case 0
    have "Addr s \<notin> Addr ` set ss"
    proof
      assume "Addr s \<in> Addr ` set ss"
      then obtain j where "j < length ss" "Addr (ss ! j) = Addr s"
        by (auto simp: in_set_conv_nth)
      with Cons.prems(2) 0 show False
        by (auto dest!: spec [of _ "Suc j"])
    qed
    with 0 show ?thesis by (simp add: loop_other)
  next
    case (Suc k')
    with Cons.prems(1) have k': "k' < length ss" by simp
    have later: "\<forall>j. k' < j \<and> j < length ss \<longrightarrow> Addr (ss ! j) \<noteq> Addr (ss ! k')"
    proof (intro allI impI)
      fix j
      assume "k' < j \<and> j < length ss"
      with Suc have "k < Suc j \<and> Suc j < length (s # ss)" by simp
      with Cons.prems(2) have "Addr ((s # ss) ! Suc j) \<noteq> Addr ((s # ss) ! k)" by blast
      with Suc show "Addr (ss ! j) \<noteq> Addr (ss ! k')" by simp
    qed
    from Cons.IH [OF k' later] Suc show ?thesis by simp
  qed
qed

lemma loop_dom:
  "dom (snd (listener_loop i ss (fds, m))) = dom m \<union> Addr ` set ss"
  by (induction ss arbitrary: i fds m) auto

lemma offsets_ok_step:
  assumes "offsets_ok i m"
  shows "offsets_ok (Suc i) (m(a \<mapsto> 4 + i))"
proof -
  from assms have bound: "\<And>b v. m b = Some v \<Longrightarrow> 4 \<le> v \<and> v < 4 + i"
    and inj: "\<And>b c v. m b = Some v \<Longrightarrow> m c = Some v \<Longrightarrow> b = c"
    unfolding offsets_ok_def by blast+
  have "4 \<le> v \<and> v < 4 + Suc i" if "(m(a \<mapsto> 4 + i)) b = Some v" for b v
    using that bound [of b v] by (cases "b = a") auto
  moreover have "b = c"
    if "(m(a \<mapsto> 4 + i)) b = Some v" and "(m(a \<mapsto> 4 + i)) c = Some v" for b c v
    using that bound [of b v] bound [of c v] inj [of b v c]
    by (cases "b = a"; cases "c = a") auto
  ultimately show ?thesis unfolding offsets_ok_def by blast
qed

lemma loop_offsets_ok:
  "offsets_ok i m \<Longrightarrow> offsets_ok (i + length ss) (snd (listener_loop i ss (fds, m)))"
proof (induction ss arbitrary: i fds m)
  case Nil
  then show ?case by simp
next
  case (Cons s ss)
  have "offsets_ok (Suc i) (m(Addr s \<mapsto> 4 + i))"
    using Cons.prems by (rule offsets_ok_step)
  then have "offsets_ok (Suc i + length ss)
      (snd (listener_loop (Suc i) ss (fds @ [ListenerFd s], m(Addr s \<mapsto> 4 + i))))"
    by (rule Cons.IH)
  moreover have "snd (listener_loop i (s # ss) (fds, m)) =
      snd (listener_loop (Suc i) ss (fds @ [ListenerFd s], m(Addr s \<mapsto> 4 + i)))"
    by simp
  moreover have "i + length (s # ss) = Suc i + length ss" by simp
  ultimately show ?case by (simp only:)
qed

lemma offsets_ok_empty: "offsets_ok 0 Map.empty"
  by (simp add: offsets_ok_def)

lemma offsets_ok_ran: "offsets_ok n m \<Longrightarrow> ran m \<subseteq> {4..<4 + n}"
  unfolding offsets_ok_def ran_def by auto

lemma offsets_ok_inj: "offsets_ok n m \<Longrightarrow> inj_on m (dom m)"
  unfolding offsets_ok_def inj_on_def by (auto simp: dom_def)

lemma offsets_ok_card: 
  assumes "offsets_ok n m" "finite (dom m)"
  shows "card (ran m) = card (dom m)"
proof -
  have "ran m = (\<lambda>a. the (m a)) ` dom m"
    by (auto simp: ran_def dom_def image_iff) force
  moreover have "inj_on (\<lambda>a. the (m a)) (dom m)"
    using assms(1) unfolding offsets_ok_def inj_on_def by (auto simp: dom_def)
  ultimately show ?thesis by (simp add: card_image)
qed

lemma ran_full_iff_distinct:
  assumes ok: "offsets_ok (length ss) m" and d: "dom m = Addr ` set ss"
  shows "ran m = {4..<4 + length ss} \<longleftrightarrow> distinct (map Addr ss)"
proof -
  have fin: "finite (dom m)" by (simp add: d)
  have c: "card (ran m) = card (set (map Addr ss))"
    using offsets_ok_card [OF ok fin] d by simp
  have sub: "ran m \<subseteq> {4..<4 + length ss}" by (rule offsets_ok_ran [OF ok])
  show ?thesis
  proof
    assume "ran m = {4..<4 + length ss}"
    then have "card (set (map Addr ss)) = length (map Addr ss)" using c by simp
    then show "distinct (map Addr ss)" by (rule card_distinct)
  next
    assume "distinct (map Addr ss)"
    then have "card (set (map Addr ss)) = length ss"
      using distinct_card [of "map Addr ss"] by simp
    with c have "card (ran m) = card {4..<4 + length ss}" by simp
    with sub show "ran m = {4..<4 + length ss}"
      by (simp add: card_subset_eq)
  qed
qed

section \<open>The paths through \<open>Restart\<close>\<close>

lemmas R_defs = Restart_def steps_def emit_def call_Stop_def call_Start_def Setenv_def os_Pipe_def Close_def Let_def
lemmas H_defs = chosen_input_def prologue_def argv_def flagged_def table_def launch_steps_def payload_def

lemma path_panic:
  assumes "GOOS w \<noteq> ''windows''" and "chosen_input inp w = None"
  shows "fst (Restart X inp w) = Panicked"
    and "steps X inp w = prologue inp @ [SetenvCalled ''CADDY_RESTART'' ''true'']"
    and "servers (snd (Restart X inp w)) = servers w"
    and "Environ (snd (Restart X inp w)) = flagged w"
    and "open_fds (snd (Restart X inp w)) = open_fds w"
  using assms by (cases inp; simp add: R_defs H_defs)+

lemma path_pipe1:
  assumes "GOOS w \<noteq> ''windows''" and "chosen_input inp w = Some c"
    and "Pipe1 X = Inl e"
  shows "fst (Restart X inp w) = Returned (Some e)"
    and "steps X inp w = prologue inp @ [SetenvCalled ''CADDY_RESTART'' ''true'', PipeCalled]"
    and "servers (snd (Restart X inp w)) = servers w"
    and "Environ (snd (Restart X inp w)) = flagged w"
    and "open_fds (snd (Restart X inp w)) = open_fds w"
  using assms by (cases inp; simp add: R_defs H_defs)+

lemma path_pipe2:
  assumes "GOOS w \<noteq> ''windows''" and "chosen_input inp w = Some c"
    and "Pipe1 X = Inr (rp, wp)" and "Pipe2 X = Inl e"
  shows "fst (Restart X inp w) = Returned (Some e)"
    and "steps X inp w = prologue inp @ [SetenvCalled ''CADDY_RESTART'' ''true'', PipeCalled, PipeCalled]"
    and "servers (snd (Restart X inp w)) = servers w"
    and "Environ (snd (Restart X inp w)) = flagged w"
    and "open_fds (snd (Restart X inp w)) = open_fds w \<union> {rp, wp}"
  using assms by (cases inp; simp add: R_defs H_defs)+

lemma path_fork:
  assumes "GOOS w \<noteq> ''windows''" and "chosen_input inp w = Some c"
    and "Pipe1 X = Inr (rp, wp)" and "Pipe2 X = Inr (sr, sw)"
    and "ForkExec X = Some e"
  shows "fst (Restart X inp w) = Returned (Some e)"
    and "steps X inp w = launch_steps inp rp sw w"
    and "servers (snd (Restart X inp w)) = servers w"
    and "Environ (snd (Restart X inp w)) = flagged w"
    and "open_fds (snd (Restart X inp w)) = open_fds w \<union> {rp, wp} \<union> {sr, sw}"
  using assms by (cases inp; simp add: R_defs H_defs split: prod.splits)+

lemma path_encode:
  assumes "GOOS w \<noteq> ''windows''" and "chosen_input inp w = Some c"
    and "Pipe1 X = Inr (rp, wp)" and "Pipe2 X = Inr (sr, sw)"
    and "ForkExec X = None" and "Encode X = Some e"
  shows "fst (Restart X inp w) = Returned (Some e)"
    and "steps X inp w = launch_steps inp rp sw w @ [EncodeCalled wp (payload c rp sw w)]"
    and "servers (snd (Restart X inp w)) = servers w"
    and "Environ (snd (Restart X inp w)) = flagged w"
    and "open_fds (snd (Restart X inp w)) = open_fds w \<union> {rp, wp} \<union> {sr, sw}"
  using assms by (cases inp; simp add: R_defs H_defs split: prod.splits)+

lemma path_no_answer:
  assumes "GOOS w \<noteq> ''windows''" and "chosen_input inp w = Some c"
    and "Pipe1 X = Inr (rp, wp)" and "Pipe2 X = Inr (sr, sw)"
    and "ForkExec X = None" and "Encode X = None"
    and "ReadAll X = (answer, err)" and "err \<noteq> None \<or> answer = []"
  shows "fst (Restart X inp w) = Returned (Some incompleteRestartErr)"
    and "steps X inp w = launch_steps inp rp sw w @
           [EncodeCalled wp (payload c rp sw w), CloseCalled wp, CloseCalled sw,
            ReadAllCalled sr,
            LogPrintln ''restart: child failed to answer; changes not applied'']"
    and "servers (snd (Restart X inp w)) = servers w"
    and "Environ (snd (Restart X inp w)) = flagged w"
    and "open_fds (snd (Restart X inp w)) = open_fds w \<union> {rp, wp} \<union> {sr, sw} - {wp} - {sw}"
  using assms by (cases inp; simp add: R_defs H_defs split: prod.splits)+

lemma path_answer:
  assumes "GOOS w \<noteq> ''windows''" and "chosen_input inp w = Some c"
    and "Pipe1 X = Inr (rp, wp)" and "Pipe2 X = Inr (sr, sw)"
    and "ForkExec X = None" and "Encode X = None"
    and "ReadAll X = (answer, None)" and "answer \<noteq> []"
  shows "fst (Restart X inp w) = Returned (fst (Stop X (servers w)))"
    and "steps X inp w = launch_steps inp rp sw w @
           [EncodeCalled wp (payload c rp sw w), CloseCalled wp, CloseCalled sw,
            ReadAllCalled sr, StopCalled]"
    and "servers (snd (Restart X inp w)) = snd (Stop X (servers w))"
    and "Environ (snd (Restart X inp w)) = flagged w"
    and "open_fds (snd (Restart X inp w)) = open_fds w \<union> {rp, wp} \<union> {sr, sw} - {wp} - {sw}"
  using assms by (cases inp; simp add: R_defs H_defs split: prod.splits)+

lemma path_fallback:
  assumes "GOOS w = ''windows''"
  shows "fst (Restart X inp w) =
           Returned (case fst (Stop X (servers w)) of
                       Some e \<Rightarrow> Some e
                     | None \<Rightarrow> fst (Start X (chosen_input inp w) (snd (Stop X (servers w)))))"
    and "steps X inp w =
           prologue inp @ StopCalled #
           (if fst (Stop X (servers w)) = None then [StartCalled (chosen_input inp w)] else [])"
    and "servers (snd (Restart X inp w)) =
           (if fst (Stop X (servers w)) = None
            then snd (Start X (chosen_input inp w) (snd (Stop X (servers w))))
            else snd (Stop X (servers w)))"
    and "Environ (snd (Restart X inp w)) = Environ w"
    and "open_fds (snd (Restart X inp w)) = open_fds w"
  using assms by (cases inp; simp add: R_defs H_defs split: prod.splits option.splits)+

lemma graceful_cases [case_names panic pipe1 pipe2 fork encode no_answer answer]:
  obtains (panic) "chosen_input inp w = None"
  | (pipe1) c e where "chosen_input inp w = Some c" "Pipe1 X = Inl e"
  | (pipe2) c rp wp e where "chosen_input inp w = Some c" "Pipe1 X = Inr (rp, wp)"
      "Pipe2 X = Inl e"
  | (fork) c rp wp sr sw e where "chosen_input inp w = Some c" "Pipe1 X = Inr (rp, wp)"
      "Pipe2 X = Inr (sr, sw)" "ForkExec X = Some e"
  | (encode) c rp wp sr sw e where "chosen_input inp w = Some c" "Pipe1 X = Inr (rp, wp)"
      "Pipe2 X = Inr (sr, sw)" "ForkExec X = None" "Encode X = Some e"
  | (no_answer) c rp wp sr sw answer err where "chosen_input inp w = Some c"
      "Pipe1 X = Inr (rp, wp)" "Pipe2 X = Inr (sr, sw)" "ForkExec X = None" "Encode X = None"
      "ReadAll X = (answer, err)" "err \<noteq> None \<or> answer = []"
  | (answer) c rp wp sr sw answer where "chosen_input inp w = Some c"
      "Pipe1 X = Inr (rp, wp)" "Pipe2 X = Inr (sr, sw)" "ForkExec X = None" "Encode X = None"
      "ReadAll X = (answer, None)" "answer \<noteq> []"
proof (cases "chosen_input inp w")
  case None
  then show ?thesis by (rule panic)
next
  case (Some c)
  note c = this
  show ?thesis
  proof (cases "Pipe1 X")
    case (Inl e)
    with c show ?thesis by (rule pipe1)
  next
    case (Inr p1)
    then obtain rp wp where p1: "Pipe1 X = Inr (rp, wp)" by (cases p1) simp
    show ?thesis
    proof (cases "Pipe2 X")
      case (Inl e)
      with c p1 show ?thesis by (rule pipe2)
    next
      case (Inr p2)
      then obtain sr sw where p2: "Pipe2 X = Inr (sr, sw)" by (cases p2) simp
      show ?thesis
      proof (cases "ForkExec X")
        case (Some e)
        with c p1 p2 show ?thesis by (rule fork)
      next
        case None
        note f = this
        show ?thesis
        proof (cases "Encode X")
          case (Some e)
          with c p1 p2 f show ?thesis by (rule encode)
        next
          case None
          note en = this
          obtain answer err where r: "ReadAll X = (answer, err)" by (cases "ReadAll X")
          show ?thesis
          proof (cases "err \<noteq> None \<or> answer = []")
            case True
            with c p1 p2 f en r show ?thesis by (rule no_answer)
          next
            case False
            then have "ReadAll X = (answer, None)" "answer \<noteq> []" using r by auto
            with c p1 p2 f en show ?thesis by (rule answer)
          qed
        qed
      qed
    qed
  qed
qed

section \<open>Facts about the traces\<close>

lemma phases_append: "phases (xs @ ys) = phases xs @ phases ys"
  by (simp add: phases_def)

lemma phases_launch: "phases (launch_steps inp rp sw w) = [Launch]"
  by (auto simp: phases_def launch_steps_def prologue_def)

lemma phases_prologue: "phases (prologue inp) = []"
  by (auto simp: phases_def prologue_def)

lemma launch_steps_no_stop: "StopCalled \<notin> set (launch_steps inp rp sw w)"
  by (simp add: launch_steps_def prologue_def)

lemma launch_steps_no_close: "CloseCalled f \<notin> set (launch_steps inp rp sw w)"
  by (simp add: launch_steps_def prologue_def)

lemma flagged_isRestart: "Environ w' = flagged w \<Longrightarrow> isRestart w'"
  by (simp add: isRestart_def Getenv_def flagged_def update_conv')

lemma flag_conclusion:
  assumes env: "Environ (snd (Restart X inp w)) = flagged w"
    and evs: "\<exists>post. steps X inp w = prologue inp @ SetenvCalled ''CADDY_RESTART'' ''true'' # post"
  shows "isRestart (snd (Restart X inp w))
       \<and> (\<exists>pre post. steps X inp w = pre @ SetenvCalled ''CADDY_RESTART'' ''true'' # post
             \<and> set pre \<subseteq> {Lock caddyfileMu, ReadCaddyfile, Unlock caddyfileMu})"
proof -
  have "set (prologue inp) \<subseteq> {Lock caddyfileMu, ReadCaddyfile, Unlock caddyfileMu}"
    by (auto simp: prologue_def)
  with evs flagged_isRestart [OF env] show ?thesis by blast
qed

lemma table_fds:
  "fst (table rp sw w) = [rp, Stdout w, Stderr w, sw] @ map ListenerFd (servers w)"
  by (simp add: table_def loop_fds)

lemma table_last:
  assumes "i < length (servers w)"
    and "\<forall>k. i < k \<and> k < length (servers w) \<longrightarrow> Addr (servers w ! k) \<noteq> Addr (servers w ! i)"
  shows "snd (table rp sw w) (Addr (servers w ! i)) = Some (4 + i)"
  using loop_last [OF assms, of 0] by (simp add: table_def)

lemma table_offsets_ok: "offsets_ok (length (servers w)) (snd (table rp sw w))"
  using loop_offsets_ok [OF offsets_ok_empty, of "servers w"] by (simp add: table_def)

lemma table_dom: "dom (snd (table rp sw w)) = Addr ` set (servers w)"
  by (simp add: table_def loop_dom)

lemma handover_observed:
  assumes "GOOS w \<noteq> ''windows''" and "chosen_input inp w = Some c"
    and "Pipe1 X = Inr (rp, wp)" and "Pipe2 X = Inr (sr, sw)" and "ForkExec X = None"
  shows "child_files (steps X inp w) = [fst (table rp sw w)]"
    and "sent_payloads (steps X inp w) = [payload c rp sw w]"
proof -
  have "child_files (steps X inp w) = [fst (table rp sw w)]
      \<and> sent_payloads (steps X inp w) = [payload c rp sw w]"
  proof (cases "Encode X")
    case (Some e)
    from path_encode(2) [OF assms Some] show ?thesis
      by (auto simp: child_files_def sent_payloads_def launch_steps_def prologue_def)
  next
    case None
    obtain answer err where r: "ReadAll X = (answer, err)" by (cases "ReadAll X")
    show ?thesis
    proof (cases "err \<noteq> None \<or> answer = []")
      case True
      from path_no_answer(2) [OF assms None r True] show ?thesis
        by (auto simp: child_files_def sent_payloads_def launch_steps_def prologue_def)
    next
      case False
      then have "ReadAll X = (answer, None)" "answer \<noteq> []" using r by auto
      from path_answer(2) [OF assms None this] show ?thesis
        by (auto simp: child_files_def sent_payloads_def launch_steps_def prologue_def)
    qed
  qed
  then show "child_files (steps X inp w) = [fst (table rp sw w)]"
    and "sent_payloads (steps X inp w) = [payload c rp sw w]" by simp_all
qed

section \<open>Sample runs\<close>

lemmas sample_defs = sample_world_def sample_externals_def sample_servers_def
  sample_input_def windows_world_def twin_world_def fork_fails_def encode_fails_def
  child_silent_def read_breaks_def start_fails_def partial_start_def chosen_input_def

lemma sample_run:
  "steps sample_externals None sample_world =
     launch_steps None 3 6 sample_world @
     [EncodeCalled 4 (payload sample_input 3 6 sample_world), CloseCalled 4, CloseCalled 6,
      ReadAllCalled 5, StopCalled]"
  by (rule path_answer(2) [where answer = "[79, 75]"]) (simp_all add: sample_defs)

lemma sample_handover:
  "child_files (steps sample_externals None sample_world) = [fst (table 3 6 sample_world)]"
  "sent_payloads (steps sample_externals None sample_world) =
     [payload sample_input 3 6 sample_world]"
  by (rule handover_observed [where wp = 4 and sr = 5]; simp add: sample_defs)+

lemma twin_handover:
  "child_files (steps sample_externals None twin_world) = [fst (table 3 6 twin_world)]"
  "sent_payloads (steps sample_externals None twin_world) =
     [payload sample_input 3 6 twin_world]"
  by (rule handover_observed [where wp = 4 and sr = 5]; simp add: sample_defs)+

section \<open>Which configuration a restart uses\<close>

lemma steps_shape:
  "\<exists>rest. steps X inp w = prologue inp @ rest
      \<and> ReadCaddyfile \<notin> set rest \<and> Lock caddyfileMu \<notin> set rest
      \<and> (\<forall>i. StartCalled i \<in> set rest \<longrightarrow> i = chosen_input inp w)
      \<and> (\<forall>p \<in> set (sent_payloads rest).
            Some (Caddyfile p) = map_option Body (chosen_input inp w))"
proof (cases "GOOS w = ''windows''")
  case True
  show ?thesis
    by (simp add: path_fallback(2) [OF True] sent_payloads_def)
next
  case False
  show ?thesis
  proof (cases rule: graceful_cases [where inp = inp and w = w and X = X])
    case panic
    show ?thesis
      by (simp add: path_panic(2) [OF False panic] sent_payloads_def)
  next
    case (pipe1 c e)
    show ?thesis
      by (simp add: path_pipe1(2) [OF False pipe1] sent_payloads_def)
  next
    case (pipe2 c rp wp e)
    show ?thesis
      by (simp add: path_pipe2(2) [OF False pipe2] sent_payloads_def)
  next
    case (fork c rp wp sr sw e)
    show ?thesis
      by (simp add: path_fork(2) [OF False fork] launch_steps_def sent_payloads_def)
  next
    case (encode c rp wp sr sw e)
    show ?thesis
      by (simp add: path_encode(2) [OF False encode] launch_steps_def sent_payloads_def
          payload_def encode(1))
  next
    case (no_answer c rp wp sr sw answer err)
    show ?thesis
      by (simp add: path_no_answer(2) [OF False no_answer] launch_steps_def sent_payloads_def
          payload_def no_answer(1))
  next
    case (answer c rp wp sr sw answer)
    show ?thesis
      by (simp add: path_answer(2) [OF False answer] launch_steps_def sent_payloads_def
          payload_def answer(1))
  qed
qed

lemma sent_payloads_prologue: "sent_payloads (prologue inp @ rest) = sent_payloads rest"
  by (auto simp: sent_payloads_def prologue_def)

section \<open>The claims\<close>

text \<open>
  Claim C1. On the graceful path, take a call that gets as far as reading the signal
  pipe: the platform is not Windows, there is a configuration to send, both pipes were
  created, the child was launched and the payload was written. If \<open>ioutil.ReadAll\<close>
  then returns an error or no bytes, \<open>Restart\<close> returns \<open>incompleteRestartErr\<close>,
  \<open>Stop\<close> is not called, and the registry (servers and their listening state) is
  what it was before the call.
\<close>

theorem Restart_unanswered_keeps_servers:
  assumes "GOOS w \<noteq> ''windows''" and "chosen_input inp w = Some c"
    and "Pipe1 X = Inr (rp, wp)" and "Pipe2 X = Inr (sr, sw)"
    and "ForkExec X = None" and "Encode X = None"
    and "ReadAll X = (answer, err)" and "err \<noteq> None \<or> answer = []"
  shows "fst (Restart X inp w) = Returned (Some incompleteRestartErr)
       \<and> servers (snd (Restart X inp w)) = servers w
       \<and> StopCalled \<notin> set (steps X inp w)
       \<and> ReadAllCalled sr \<in> set (steps X inp w)"
  using path_no_answer(1-3) [OF assms] by (simp add: launch_steps_no_stop)

theorem Restart_unanswered_keeps_servers_witness:
  "fst (Restart child_silent None sample_world) = Returned (Some incompleteRestartErr)
   \<and> servers (snd (Restart child_silent None sample_world)) = sample_servers
   \<and> StopCalled \<notin> set (steps child_silent None sample_world)
   \<and> ReadAllCalled 5 \<in> set (steps child_silent None sample_world)"
  using Restart_unanswered_keeps_servers
    [of sample_world None sample_input child_silent 3 4 5 6 "[]" None]
  by (simp add: sample_defs)

text \<open>
  Claim C2. On the graceful path the four protocol steps happen in one order: launch
  the child, write the payload, read the signal pipe, stop the old servers. Every call
  performs an initial part of this sequence, and \<open>Stop\<close> is called only when the read
  returned bytes and no error, after the other three steps.
\<close>

theorem Restart_graceful_order:
  assumes "GOOS w \<noteq> ''windows''"
  shows "prefix (phases (steps X inp w)) [Launch, SendPayload, AwaitSignal, StopOld]
       \<and> (StopCalled \<in> set (steps X inp w) \<longrightarrow>
            fst (ReadAll X) \<noteq> [] \<and> snd (ReadAll X) = None
            \<and> phases (steps X inp w) = [Launch, SendPayload, AwaitSignal, StopOld])"
proof (cases rule: graceful_cases [where inp = inp and w = w and X = X])
  case panic
  from path_panic(2) [OF assms this] show ?thesis
    by (simp add: phases_append phases_prologue prologue_def) (simp add: phases_def)
next
  case (pipe1 c e)
  from path_pipe1(2) [OF assms this] show ?thesis
    by (simp add: phases_append phases_prologue prologue_def) (simp add: phases_def)
next
  case (pipe2 c rp wp e)
  from path_pipe2(2) [OF assms this] show ?thesis
    by (simp add: phases_append phases_prologue prologue_def) (simp add: phases_def)
next
  case (fork c rp wp sr sw e)
  from path_fork(2) [OF assms this] show ?thesis
    by (simp add: phases_launch launch_steps_no_stop)
next
  case (encode c rp wp sr sw e)
  from path_encode(2) [OF assms this] show ?thesis
    by (simp add: phases_append phases_launch launch_steps_no_stop) (simp add: phases_def)
next
  case (no_answer c rp wp sr sw answer err)
  from path_no_answer(2) [OF assms this] show ?thesis
    by (simp add: phases_append phases_launch launch_steps_no_stop) (simp add: phases_def)
next
  case (answer c rp wp sr sw answer)
  from path_answer(2) [OF assms this] answer(6,7) show ?thesis
    by (simp add: phases_append phases_launch launch_steps_no_stop) (simp add: phases_def)
qed

theorem Restart_graceful_order_witness:
  "GOOS sample_world \<noteq> ''windows''
   \<and> StopCalled \<in> set (steps sample_externals None sample_world)
   \<and> phases (steps sample_externals None sample_world) =
       [Launch, SendPayload, AwaitSignal, StopOld]
   \<and> fst (ReadAll sample_externals) \<noteq> [] \<and> snd (ReadAll sample_externals) = None"
proof -
  have g: "GOOS sample_world \<noteq> ''windows''" by (simp add: sample_defs)
  have s: "StopCalled \<in> set (steps sample_externals None sample_world)"
    by (simp add: sample_run)
  from Restart_graceful_order [OF g, of sample_externals None] s g show ?thesis by blast
qed

text \<open>
  Claim C3, as the code has it. Once the child is launched, the descriptor list given
  to \<open>ForkExec\<close> has the read end of the config pipe at position 0, the parent's
  standard output at 1, its standard error at 2 and the write end of the signal pipe
  at 3, followed at position \<open>4 + i\<close> by the descriptor of the \<open>i\<close>-th registered
  server. The address map of the payload gives the address of server \<open>i\<close> the position
  \<open>4 + i\<close> whenever no later server of the registry has the same address; so it does
  for every server when the addresses are pairwise distinct.
\<close>

theorem Restart_descriptor_table:
  assumes "GOOS w \<noteq> ''windows''" and "chosen_input inp w = Some c"
    and "Pipe1 X = Inr (rp, wp)" and "Pipe2 X = Inr (sr, sw)" and "ForkExec X = None"
  shows "\<exists>fds p. child_files (steps X inp w) = [fds] \<and> sent_payloads (steps X inp w) = [p]
      \<and> length fds = length (servers w) + 4
      \<and> fds ! 0 = rp \<and> fds ! 1 = Stdout w \<and> fds ! 2 = Stderr w \<and> fds ! 3 = sw
      \<and> (\<forall>i < length (servers w). fds ! (4 + i) = ListenerFd (servers w ! i))
      \<and> (\<forall>i < length (servers w).
            (\<forall>k. i < k \<and> k < length (servers w) \<longrightarrow> Addr (servers w ! k) \<noteq> Addr (servers w ! i))
            \<longrightarrow> ListenerFds p (Addr (servers w ! i)) = Some (4 + i))
      \<and> (distinct (map Addr (servers w)) \<longrightarrow>
            (\<forall>i < length (servers w). ListenerFds p (Addr (servers w ! i)) = Some (4 + i)))"
proof -
  let ?fds = "fst (table rp sw w)" and ?p = "payload c rp sw w"
  have pos: "\<forall>i < length (servers w). ?fds ! (4 + i) = ListenerFd (servers w ! i)"
    by (simp add: table_fds)
  have last: "\<forall>i < length (servers w).
      (\<forall>k. i < k \<and> k < length (servers w) \<longrightarrow> Addr (servers w ! k) \<noteq> Addr (servers w ! i))
      \<longrightarrow> ListenerFds ?p (Addr (servers w ! i)) = Some (4 + i)"
    by (simp add: payload_def table_last)
  have dist: "\<forall>i < length (servers w). ListenerFds ?p (Addr (servers w ! i)) = Some (4 + i)"
    if d: "distinct (map Addr (servers w))"
  proof (intro allI impI)
    fix i assume i: "i < length (servers w)"
    have "\<forall>k. i < k \<and> k < length (servers w) \<longrightarrow> Addr (servers w ! k) \<noteq> Addr (servers w ! i)"
    proof (intro allI impI)
      fix k assume k: "i < k \<and> k < length (servers w)"
      with d i have "map Addr (servers w) ! k \<noteq> map Addr (servers w) ! i"
        by (simp add: nth_eq_iff_index_eq del: nth_map)
      with i k show "Addr (servers w ! k) \<noteq> Addr (servers w ! i)" by simp
    qed
    with last i show "ListenerFds ?p (Addr (servers w ! i)) = Some (4 + i)" by blast
  qed
  have "child_files (steps X inp w) = [?fds] \<and> sent_payloads (steps X inp w) = [?p]
      \<and> length ?fds = length (servers w) + 4
      \<and> ?fds ! 0 = rp \<and> ?fds ! 1 = Stdout w \<and> ?fds ! 2 = Stderr w \<and> ?fds ! 3 = sw"
    using handover_observed [OF assms] by (simp add: table_fds)
  with pos last dist show ?thesis by blast
qed

theorem Restart_descriptor_table_witness:
  "hd (child_files (steps sample_externals None sample_world)) = [3, 1, 2, 6, 7, 8]
   \<and> ListenerFds (hd (sent_payloads (steps sample_externals None sample_world))) '':8080''
       = Some 4
   \<and> ListenerFds (hd (sent_payloads (steps sample_externals None sample_world))) '':8443''
       = Some 5"
proof -
  have h: "GOOS sample_world \<noteq> ''windows''" "chosen_input None sample_world = Some sample_input"
    "Pipe1 sample_externals = Inr (3, 4)" "Pipe2 sample_externals = Inr (5, 6)"
    "ForkExec sample_externals = None"
    by (simp_all add: sample_defs)
  from Restart_descriptor_table [OF h] obtain fds p
    where f: "child_files (steps sample_externals None sample_world) = [fds]"
      and p: "sent_payloads (steps sample_externals None sample_world) = [p]"
      and len: "length fds = length (servers sample_world) + 4"
      and fixed: "fds ! 0 = 3" "fds ! 1 = Stdout sample_world" "fds ! 2 = Stderr sample_world"
        "fds ! 3 = 6"
      and pos: "\<forall>i < length (servers sample_world).
                  fds ! (4 + i) = ListenerFd (servers sample_world ! i)"
      and d: "distinct (map Addr (servers sample_world)) \<longrightarrow>
                (\<forall>i < length (servers sample_world).
                   ListenerFds p (Addr (servers sample_world ! i)) = Some (4 + i))"
    by blast
  have "distinct (map Addr (servers sample_world))" by (simp add: sample_defs)
  with d have m: "\<forall>i < length (servers sample_world).
      ListenerFds p (Addr (servers sample_world ! i)) = Some (4 + i)" by blast
  have n: "0 < length (servers sample_world)" "1 < length (servers sample_world)"
    by (simp_all add: sample_defs)
  have "ListenerFds p (Addr (servers sample_world ! 0)) = Some (4 + 0)"
    and "ListenerFds p (Addr (servers sample_world ! 1)) = Some (4 + 1)"
    using m [rule_format, OF n(1)] m [rule_format, OF n(2)] by simp_all
  then have a: "ListenerFds p '':8080'' = Some 4" "ListenerFds p '':8443'' = Some 5"
    by (simp_all add: sample_defs)
  have "fds ! (4 + 0) = ListenerFd (servers sample_world ! 0)"
    and "fds ! (4 + 1) = ListenerFd (servers sample_world ! 1)"
    using pos [rule_format, OF n(1)] pos [rule_format, OF n(2)] by simp_all
  then have b: "fds ! 4 = 7" "fds ! 5 = 8" by (simp_all add: sample_defs)
  from len have "length fds = 6" by (simp add: sample_defs)
  with fixed b have "fds = [3, 1, 2, 6, 7, 8]"
    by (auto simp: list_eq_iff_nth_eq less_Suc_eq sample_defs numeral_eq_Suc)
  with f p a show ?thesis by simp
qed

text \<open>
  Claim C3 as stated fails when two registered servers have the same address: the
  second assignment to the map replaces the first, so the address of server 0 is given
  position 5, while the descriptor of server 0 (7) stands at position 4.
\<close>

theorem twin_addresses_position:
  "Addr (servers twin_world ! 0) = '':80''
   \<and> ListenerFds (hd (sent_payloads (steps sample_externals None twin_world))) '':80'' = Some 5
   \<and> hd (child_files (steps sample_externals None twin_world)) = [3, 1, 2, 6, 7, 8]"
  by (simp add: twin_handover payload_def table_def)
     (simp add: twin_world_def sample_world_def)

text \<open>
  Claim C4, as the code has it. For a registry of \<open>N\<close> servers the descriptor list
  has length \<open>N + 4\<close>; every offset of the address map lies in \<open>4 .. 3 + N\<close>; no two
  addresses have the same offset; and the offsets are all of \<open>4 .. 3 + N\<close> exactly
  when the addresses of the registered servers are pairwise distinct.
\<close>

theorem Restart_offsets:
  assumes "GOOS w \<noteq> ''windows''" and "chosen_input inp w = Some c"
    and "Pipe1 X = Inr (rp, wp)" and "Pipe2 X = Inr (sr, sw)" and "ForkExec X = None"
  shows "\<exists>fds p. child_files (steps X inp w) = [fds] \<and> sent_payloads (steps X inp w) = [p]
      \<and> length fds = length (servers w) + 4
      \<and> ran (ListenerFds p) \<subseteq> {4 ..< 4 + length (servers w)}
      \<and> inj_on (ListenerFds p) (dom (ListenerFds p))
      \<and> (ran (ListenerFds p) = {4 ..< 4 + length (servers w)}
           \<longleftrightarrow> distinct (map Addr (servers w)))"
proof -
  let ?fds = "fst (table rp sw w)" and ?p = "payload c rp sw w"
  have m: "ListenerFds ?p = snd (table rp sw w)" by (simp add: payload_def)
  have "child_files (steps X inp w) = [?fds]" "sent_payloads (steps X inp w) = [?p]"
    by (rule handover_observed [OF assms])+
  moreover have "length ?fds = length (servers w) + 4" by (simp add: table_fds)
  moreover have "ran (ListenerFds ?p) \<subseteq> {4 ..< 4 + length (servers w)}"
    unfolding m by (rule offsets_ok_ran [OF table_offsets_ok])
  moreover have "inj_on (ListenerFds ?p) (dom (ListenerFds ?p))"
    unfolding m by (rule offsets_ok_inj [OF table_offsets_ok])
  moreover have "ran (ListenerFds ?p) = {4 ..< 4 + length (servers w)}
      \<longleftrightarrow> distinct (map Addr (servers w))"
    unfolding m by (rule ran_full_iff_distinct [OF table_offsets_ok table_dom])
  ultimately show ?thesis by blast
qed

theorem Restart_offsets_witness:
  "length (hd (child_files (steps sample_externals None sample_world))) = 6
   \<and> ran (ListenerFds (hd (sent_payloads (steps sample_externals None sample_world))))
       = {4 ..< 6}"
proof -
  have h: "GOOS sample_world \<noteq> ''windows''" "chosen_input None sample_world = Some sample_input"
    "Pipe1 sample_externals = Inr (3, 4)" "Pipe2 sample_externals = Inr (5, 6)"
    "ForkExec sample_externals = None"
    by (simp_all add: sample_defs)
  from Restart_offsets [OF h] obtain fds p
    where f: "child_files (steps sample_externals None sample_world) = [fds]"
      and p: "sent_payloads (steps sample_externals None sample_world) = [p]"
      and len: "length fds = length (servers sample_world) + 4"
      and full: "ran (ListenerFds p) = {4 ..< 4 + length (servers sample_world)}
                  \<longleftrightarrow> distinct (map Addr (servers sample_world))"
    by blast
  have "distinct (map Addr (servers sample_world))" by (simp add: sample_defs)
  with full have "ran (ListenerFds p) = {4 ..< 4 + length (servers sample_world)}" by blast
  with f p len show ?thesis by (simp add: sample_defs)
qed

text \<open>
  Claim C4 as stated fails for two registered servers with the same address: the map
  has one entry, so its only offset is 5 and offset 4 is missing.
\<close>

theorem twin_addresses_offsets:
  "length (servers twin_world) = 2
   \<and> ran (ListenerFds (hd (sent_payloads (steps sample_externals None twin_world)))) = {5}"
  by (simp add: twin_handover payload_def table_def)
     (simp add: twin_world_def sample_world_def)

text \<open>
  Claim C5, as the code has it. If \<open>ForkExec\<close> fails, \<open>Restart\<close> returns its error
  at once: no payload is written, the signal pipe is not read, \<open>Stop\<close> is not called
  and the registry is unchanged. On this path \<open>Restart\<close> closes no descriptor: the
  four ends of the two pipes are still open in the parent when it returns.
\<close>

theorem Restart_launch_failure:
  assumes "GOOS w \<noteq> ''windows''" and "chosen_input inp w = Some c"
    and "Pipe1 X = Inr (rp, wp)" and "Pipe2 X = Inr (sr, sw)"
    and "ForkExec X = Some e"
  shows "fst (Restart X inp w) = Returned (Some e)
       \<and> servers (snd (Restart X inp w)) = servers w
       \<and> phases (steps X inp w) = [Launch]
       \<and> (\<forall>f. CloseCalled f \<notin> set (steps X inp w))
       \<and> {rp, wp, sr, sw} \<subseteq> open_fds (snd (Restart X inp w))"
  using path_fork(1,2,3,5) [OF assms]
  by (simp add: phases_launch launch_steps_no_close)

theorem Restart_launch_failure_witness:
  "fst (Restart fork_fails None sample_world) = Returned (Some (OtherError ''fork''))
   \<and> servers (snd (Restart fork_fails None sample_world)) = sample_servers
   \<and> phases (steps fork_fails None sample_world) = [Launch]
   \<and> {3, 4, 5, 6} \<subseteq> open_fds (snd (Restart fork_fails None sample_world))"
  using Restart_launch_failure
    [of sample_world None sample_input fork_fails 3 4 5 6 "OtherError ''fork''"]
  by (simp add: sample_defs)

text \<open>
  Claim C5 as stated fails in its last part: with pipes \<open>(3, 4)\<close> and \<open>(5, 6)\<close> and a
  failing \<open>ForkExec\<close>, all four pipe descriptors are open when \<open>Restart\<close> returns.
\<close>

theorem fork_failure_leaves_pipes_open:
  "Pipe1 fork_fails = Inr (3, 4) \<and> Pipe2 fork_fails = Inr (5, 6)
   \<and> fst (Restart fork_fails None sample_world) = Returned (Some (OtherError ''fork''))
   \<and> 3 \<in> open_fds (snd (Restart fork_fails None sample_world))
   \<and> 4 \<in> open_fds (snd (Restart fork_fails None sample_world))
   \<and> 5 \<in> open_fds (snd (Restart fork_fails None sample_world))
   \<and> 6 \<in> open_fds (snd (Restart fork_fails None sample_world))"
proof -
  have h: "GOOS sample_world \<noteq> ''windows''" "chosen_input None sample_world = Some sample_input"
    "Pipe1 fork_fails = Inr (3, 4)" "Pipe2 fork_fails = Inr (5, 6)"
    "ForkExec fork_fails = Some (OtherError ''fork'')"
    by (simp_all add: sample_defs)
  from path_fork(1,5) [OF h] h(3,4) show ?thesis by simp
qed




text \<open>
  Claim C7, as the code has it. On the graceful path, when the read of the signal pipe
  returns no error and at least one byte, \<open>Restart\<close> calls \<open>Stop\<close> on the registry,
  once and as its last step, and returns what \<open>Stop\<close> returns: nil exactly when
  \<open>Stop\<close> reports no error.
\<close>

theorem Restart_answered:
  assumes "GOOS w \<noteq> ''windows''" and "chosen_input inp w = Some c"
    and "Pipe1 X = Inr (rp, wp)" and "Pipe2 X = Inr (sr, sw)"
    and "ForkExec X = None" and "Encode X = None"
    and "ReadAll X = (answer, None)" and "answer \<noteq> []"
  shows "fst (Restart X inp w) = Returned (fst (Stop X (servers w)))
       \<and> servers (snd (Restart X inp w)) = snd (Stop X (servers w))
       \<and> phases (steps X inp w) = [Launch, SendPayload, AwaitSignal, StopOld]
       \<and> last (steps X inp w) = StopCalled
       \<and> (fst (Restart X inp w) = Returned None \<longleftrightarrow> fst (Stop X (servers w)) = None)"
  using path_answer(1,2,3) [OF assms]
  by (simp add: phases_append phases_launch) (simp add: phases_def)

theorem Restart_answered_witness:
  "fst (Restart sample_externals None sample_world) = Returned None
   \<and> none_listening (servers (snd (Restart sample_externals None sample_world)))
   \<and> last (steps sample_externals None sample_world) = StopCalled"
  using Restart_answered
    [of sample_world None sample_input sample_externals 3 4 5 6 "[79, 75]"]
  by (simp add: sample_defs none_listening_def)

text \<open>
  Claim C7 as stated fails when \<open>ioutil.ReadAll\<close> returns bytes together with an
  error: the content is not empty, yet \<open>Restart\<close> returns \<open>incompleteRestartErr\<close>
  and does not call \<open>Stop\<close>.
\<close>

theorem answer_with_read_error:
  "fst (ReadAll read_breaks) \<noteq> []
   \<and> fst (Restart read_breaks None sample_world) = Returned (Some incompleteRestartErr)
   \<and> StopCalled \<notin> set (steps read_breaks None sample_world)
   \<and> servers (snd (Restart read_breaks None sample_world)) = sample_servers"
proof -
  have h: "GOOS sample_world \<noteq> ''windows''" "chosen_input None sample_world = Some sample_input"
    "Pipe1 read_breaks = Inr (3, 4)" "Pipe2 read_breaks = Inr (5, 6)"
    "ForkExec read_breaks = None" "Encode read_breaks = None"
    "ReadAll read_breaks = ([79, 75], Some (OtherError ''read''))"
    "Some (OtherError ''read'') \<noteq> None \<or> [79, 75 :: byte] = []"
    by (simp_all add: sample_defs)
  from path_no_answer(1,2,3) [OF h] h(7) show ?thesis
    by (simp add: launch_steps_no_stop) (simp add: sample_defs)
qed

text \<open>
  Claim C8. A nil argument makes \<open>Restart\<close> lock \<open>caddyfileMu\<close>, read \<open>caddyfile\<close> and
  unlock, as its first three steps, and that value is the configuration it uses: the
  argument of \<open>Start\<close> on Windows, the source of the payload's \<open>Caddyfile\<close> on the
  graceful path. A non-nil argument is used as given, and the call neither locks
  \<open>caddyfileMu\<close> nor reads \<open>caddyfile\<close>.
\<close>

theorem Restart_input_choice:
  "(inp = None \<longrightarrow>
      take 3 (steps X inp w) = [Lock caddyfileMu, ReadCaddyfile, Unlock caddyfileMu])
   \<and> (inp \<noteq> None \<longrightarrow>
      ReadCaddyfile \<notin> set (steps X inp w) \<and> Lock caddyfileMu \<notin> set (steps X inp w))
   \<and> (\<forall>i. StartCalled i \<in> set (steps X inp w) \<longrightarrow>
      i = (if inp = None then caddyfile w else inp))
   \<and> (\<forall>p \<in> set (sent_payloads (steps X inp w)).
      Some (Caddyfile p) = map_option Body (if inp = None then caddyfile w else inp))"
proof -
  from steps_shape [of X inp w] obtain rest
    where s: "steps X inp w = prologue inp @ rest"
      and r: "ReadCaddyfile \<notin> set rest" "Lock caddyfileMu \<notin> set rest"
      and st: "\<forall>i. StartCalled i \<in> set rest \<longrightarrow> i = chosen_input inp w"
      and pl: "\<forall>p \<in> set (sent_payloads rest).
                 Some (Caddyfile p) = map_option Body (chosen_input inp w)"
    by blast
  have "inp = None \<longrightarrow>
      take 3 (steps X inp w) = [Lock caddyfileMu, ReadCaddyfile, Unlock caddyfileMu]"
    using s by (auto simp: prologue_def)
  moreover have "inp \<noteq> None \<longrightarrow>
      ReadCaddyfile \<notin> set (steps X inp w) \<and> Lock caddyfileMu \<notin> set (steps X inp w)"
    using r by (simp add: s prologue_def)
  moreover have "\<forall>i. StartCalled i \<in> set (steps X inp w) \<longrightarrow>
      i = (if inp = None then caddyfile w else inp)"
    using st by (auto simp: s prologue_def chosen_input_def)
  moreover have "\<forall>p \<in> set (sent_payloads (steps X inp w)).
      Some (Caddyfile p) = map_option Body (if inp = None then caddyfile w else inp)"
    using pl by (simp add: s sent_payloads_prologue chosen_input_def)
  ultimately show ?thesis by blast
qed

theorem Restart_input_choice_witness:
  "take 3 (steps sample_externals None sample_world) =
     [Lock caddyfileMu, ReadCaddyfile, Unlock caddyfileMu]
   \<and> sent_payloads (steps sample_externals None sample_world) \<noteq> []
   \<and> Caddyfile (hd (sent_payloads (steps sample_externals None sample_world))) =
       Body sample_input
   \<and> caddyfile sample_world = Some sample_input"
  using Restart_input_choice [of None sample_externals sample_world]
  by (simp add: sample_handover) (simp add: sample_defs)

text \<open>
  Claim C9. If the encoder fails after the child was launched, \<open>Restart\<close> returns the
  encoder's error as it is. It does not go on: the signal pipe is not read, \<open>Stop\<close>
  is not called, the registry is unchanged, and the write end of the config pipe is
  not closed.
\<close>

theorem Restart_encode_failure:
  assumes "GOOS w \<noteq> ''windows''" and "chosen_input inp w = Some c"
    and "Pipe1 X = Inr (rp, wp)" and "Pipe2 X = Inr (sr, sw)"
    and "ForkExec X = None" and "Encode X = Some e"
  shows "fst (Restart X inp w) = Returned (Some e)
       \<and> servers (snd (Restart X inp w)) = servers w
       \<and> phases (steps X inp w) = [Launch, SendPayload]
       \<and> CloseCalled wp \<notin> set (steps X inp w)
       \<and> wp \<in> open_fds (snd (Restart X inp w))"
  using path_encode(1,2,3,5) [OF assms]
  by (simp add: phases_append phases_launch launch_steps_no_close) (simp add: phases_def)

theorem Restart_encode_failure_witness:
  "fst (Restart encode_fails None sample_world) = Returned (Some (OtherError ''broken pipe''))
   \<and> servers (snd (Restart encode_fails None sample_world)) = sample_servers
   \<and> phases (steps encode_fails None sample_world) = [Launch, SendPayload]
   \<and> 4 \<in> open_fds (snd (Restart encode_fails None sample_world))"
  using Restart_encode_failure
    [of sample_world None sample_input encode_fails 3 4 5 6 "OtherError ''broken pipe''"]
  by (simp add: sample_defs)

text \<open>
  Claim C10. Every call on a platform other than Windows sets \<open>CADDY_RESTART\<close> to
  \<open>true\<close> in the environment of the calling process, before any pipe is created or
  child launched (only the steps of the nil check come before), and nothing in the call
  clears it: whatever the outcome, \<open>isRestart\<close> holds in the parent when \<open>Restart\<close>
  has returned.
\<close>

theorem Restart_sets_restart_flag:
  assumes "GOOS w \<noteq> ''windows''"
  shows "isRestart (snd (Restart X inp w))
       \<and> (\<exists>pre post. steps X inp w = pre @ SetenvCalled ''CADDY_RESTART'' ''true'' # post
             \<and> set pre \<subseteq> {Lock caddyfileMu, ReadCaddyfile, Unlock caddyfileMu})"
proof (cases rule: graceful_cases [where inp = inp and w = w and X = X])
  case panic
  show ?thesis
    by (rule flag_conclusion) (simp_all add: path_panic(2,4) [OF assms panic])
next
  case (pipe1 c e)
  show ?thesis
    by (rule flag_conclusion) (simp_all add: path_pipe1(2,4) [OF assms pipe1])
next
  case (pipe2 c rp wp e)
  show ?thesis
    by (rule flag_conclusion) (simp_all add: path_pipe2(2,4) [OF assms pipe2])
next
  case (fork c rp wp sr sw e)
  show ?thesis
    by (rule flag_conclusion)
      (simp_all add: path_fork(2,4) [OF assms fork] launch_steps_def)
next
  case (encode c rp wp sr sw e)
  show ?thesis
    by (rule flag_conclusion)
      (simp_all add: path_encode(2,4) [OF assms encode] launch_steps_def)
next
  case (no_answer c rp wp sr sw answer err)
  show ?thesis
    by (rule flag_conclusion)
      (simp_all add: path_no_answer(2,4) [OF assms no_answer] launch_steps_def)
next
  case (answer c rp wp sr sw answer)
  show ?thesis
    by (rule flag_conclusion)
      (simp_all add: path_answer(2,4) [OF assms answer] launch_steps_def)
qed

theorem Restart_sets_restart_flag_witness:
  "GOOS sample_world \<noteq> ''windows'' \<and> \<not> isRestart sample_world
   \<and> fst (Restart fork_fails None sample_world) = Returned (Some (OtherError ''fork''))
   \<and> isRestart (snd (Restart fork_fails None sample_world))"
proof -
  have g: "GOOS sample_world \<noteq> ''windows''" by (simp add: sample_defs)
  have h: "chosen_input None sample_world = Some sample_input"
    "Pipe1 fork_fails = Inr (3, 4)" "Pipe2 fork_fails = Inr (5, 6)"
    "ForkExec fork_fails = Some (OtherError ''fork'')"
    by (simp_all add: sample_defs)
  have n: "\<not> isRestart sample_world"
    by (simp add: isRestart_def Getenv_def sample_defs)
  from Restart_sets_restart_flag [OF g, of fork_fails None] path_fork(1) [OF g h] g n
  show ?thesis by simp
qed

end
